theory Spec2Isabelle
  imports Main "HOL-Library.Multiset"
begin

section \<open>A shallow embedding of \<open>port_scanner.py\<close>\<close>

text \<open>
  The development follows the source file function by function: the string primitives
  of Python that \<open>parse_ports_input\<close> relies on, \<open>parse_ports_input\<close> itself,
  the connect probe \<open>scan_port\<close>, and the scan engine \<open>run_scan\<close> together with the
  parts of its environment (network, scheduler, interrupt signal, clock and file system)
  that decide what it returns.

  Strings are HOL strings. A character stands for the Python code point with the same
  number, so the model covers the specifications whose code points lie below 256.
\<close>

subsection \<open>Python string primitives\<close>

text \<open>
  The code points below 256 for which \<open>str.isspace\<close> holds; \<open>str.strip()\<close> removes
  exactly these from both ends.
\<close>

definition py_isspace :: "char \<Rightarrow> bool" where
  "py_isspace c \<longleftrightarrow>
     c \<in> set [CHR 0x09, CHR 0x0A, CHR 0x0B, CHR 0x0C, CHR 0x0D,
              CHR 0x1C, CHR 0x1D, CHR 0x1E, CHR 0x1F, CHR 0x20, CHR 0x85, CHR 0xA0]"

text \<open>
  The code points below 256 that \<open>int()\<close> skips around a number. The separators
  \<open>0x1C\<close> to \<open>0x1F\<close> are white space for \<open>strip\<close> but not for \<open>int\<close>.
\<close>

definition int_isspace :: "char \<Rightarrow> bool" where
  "int_isspace c \<longleftrightarrow>
     c \<in> set [CHR 0x09, CHR 0x0A, CHR 0x0B, CHR 0x0C, CHR 0x0D, CHR 0x20, CHR 0x85, CHR 0xA0]"

definition trim :: "(char \<Rightarrow> bool) \<Rightarrow> string \<Rightarrow> string" where
  "trim sp s = rev (dropWhile sp (rev (dropWhile sp s)))"

text \<open>\<open>s.strip()\<close>\<close>

definition strip :: "string \<Rightarrow> string" where
  "strip s = trim py_isspace s"

text \<open>\<open>s.split(sep)\<close> for a separator of one character: never the empty list.\<close>

fun split_on :: "char \<Rightarrow> string \<Rightarrow> string list" where
  "split_on sep [] = [Nil]"
| "split_on sep (c # cs) =
     (if c = sep then [] # split_on sep cs
      else (let r = split_on sep cs in (c # hd r) # tl r))"

text \<open>
  \<open>s.split(sep, 1)\<close> for a string that contains \<open>sep\<close>: the text before the first
  occurrence and the text after it.
\<close>

definition split_first :: "char \<Rightarrow> string \<Rightarrow> string \<times> string" where
  "split_first sep s = (takeWhile (\<lambda>c. c \<noteq> sep) s, tl (dropWhile (\<lambda>c. c \<noteq> sep) s))"

text \<open>\<open>sep.join(parts)\<close>, used to state properties of \<open>split\<close>.\<close>

fun join :: "char \<Rightarrow> string list \<Rightarrow> string" where
  "join sep [] = []"
| "join sep [t] = t"
| "join sep (t # u # ts) = t @ sep # join sep (u # ts)"

subsection \<open>\<open>int(s)\<close>\<close>

definition is_digit :: "char \<Rightarrow> bool" where
  "is_digit c \<longleftrightarrow> c \<in> set ''0123456789''"

definition digit_val :: "char \<Rightarrow> int" where
  "digit_val c = int (of_char c) - 48"

text \<open>
  The body of a decimal literal: digits with single underscores between them, so
  no underscore at either end and no two in a row.
\<close>

fun digits_tail :: "string \<Rightarrow> bool" where
  "digits_tail [] = True"
| "digits_tail (c # cs) =
     (if c = CHR ''_'' then (case cs of [] \<Rightarrow> False | d # ds \<Rightarrow> is_digit d \<and> digits_tail ds)
      else is_digit c \<and> digits_tail cs)"

fun digits_ok :: "string \<Rightarrow> bool" where
  "digits_ok [] = False"
| "digits_ok (c # cs) = (is_digit c \<and> digits_tail cs)"

definition digits_value :: "string \<Rightarrow> int" where
  "digits_value ds = foldl (\<lambda>n c. 10 * n + digit_val c) 0 ds"

text \<open>
  \<open>int(s)\<close> in base ten, \<open>None\<close> where Python raises \<open>ValueError\<close>: white space
  around the number is skipped, one sign is allowed, the rest must be a literal body.
  The interpreter refuses a number of more than \<open>sys.get_int_max_str_digits()\<close>
  digits; that setting is the parameter \<open>lim\<close> (4300 unless configured, 0 for no limit).
\<close>

definition py_int :: "nat \<Rightarrow> string \<Rightarrow> int option" where
  "py_int lim s =
     (let t = trim int_isspace s;
          neg = (t \<noteq> [] \<and> hd t = CHR ''-'');
          body = (if t \<noteq> [] \<and> (hd t = CHR ''+'' \<or> hd t = CHR ''-'') then tl t else t);
          ds = filter (\<lambda>c. c \<noteq> CHR ''_'') body
      in if \<not> digits_ok body then None
         else if 0 < lim \<and> lim < length ds then None
         else Some (if neg then - digits_value ds else digits_value ds))"

subsection \<open>\<open>parse_ports_input\<close>\<close>

text \<open>
  The loop over \<open>spec.split(",")\<close>, with the set \<open>ports\<close> as accumulator. Every
  \<open>return None\<close> of the source, and every \<open>except Exception: return None\<close> around
  an \<open>int()\<close> that raises, is a \<open>None\<close> here; it ends the loop at once.
\<close>

fun parse_parts :: "nat \<Rightarrow> string list \<Rightarrow> int set \<Rightarrow> int set option" where
  "parse_parts lim [] ports = Some ports"
| "parse_parts lim (part0 # rest) ports =
     (let part = strip part0 in
      if part = [] then parse_parts lim rest ports
      else if CHR ''-'' \<in> set part then
        (case split_first CHR ''-'' part of (a_str, b_str) \<Rightarrow>
          (case py_int lim a_str of None \<Rightarrow> None
           | Some a \<Rightarrow>
             (case py_int lim b_str of None \<Rightarrow> None
              | Some b \<Rightarrow>
                  if a < 1 \<or> b > 65535 \<or> a > b then None
                  else parse_parts lim rest (fold insert [a..b] ports))))
      else
        (case py_int lim part of None \<Rightarrow> None
         | Some p \<Rightarrow>
             if 1 \<le> p \<and> p \<le> 65535 then parse_parts lim rest (insert p ports)
             else None))"

definition parse_ports_input :: "nat \<Rightarrow> string \<Rightarrow> int list option" where
  "parse_ports_input lim spec =
     (if spec = [] then None
      else map_option sorted_list_of_set (parse_parts lim (split_on CHR '','' spec) {}))"

subsection \<open>Exceptions\<close>

text \<open>
  The calls into the socket and file libraries raise subclasses of \<open>Exception\<close>
  only; \<open>KeyboardInterrupt\<close> and \<open>SystemExit\<close> derive from \<open>BaseException\<close> and
  pass through an \<open>except Exception\<close> clause.
\<close>

datatype lib_error = OSError | ValueError | TypeError | OverflowError | UnicodeError

datatype py_exn = Error lib_error | KeyboardInterrupt | SystemExit

fun is_Exception :: "py_exn \<Rightarrow> bool" where
  "is_Exception (Error e) = True"
| "is_Exception KeyboardInterrupt = False"
| "is_Exception SystemExit = False"

subsection \<open>\<open>scan_port\<close>\<close>

text \<open>
  What the four socket calls of one probe do: \<open>socket.socket(...)\<close>,
  \<open>s.settimeout(timeout)\<close> and the \<open>s.close()\<close> of the \<open>with\<close> statement either
  succeed (\<open>None\<close>) or raise; \<open>s.connect_ex(...)\<close> raises or returns an error code,
  0 when the connection was established within the timeout.
\<close>

record sock_behaviour =
  sb_create :: "lib_error option"
  sb_settimeout :: "lib_error option"
  sb_connect_ex :: "lib_error + int"
  sb_close :: "lib_error option"

text \<open>
  The network as the probe sees it, for a host, a port and a timeout. The timeout is
  handed to the socket unchanged, so its type is left open.
\<close>

type_synonym 't network = "string \<Rightarrow> int \<Rightarrow> 't \<Rightarrow> sock_behaviour"

text \<open>The two statements inside the \<open>with\<close> block.\<close>

definition probe_body :: "sock_behaviour \<Rightarrow> int \<Rightarrow> py_exn + (int \<times> bool)" where
  "probe_body b port =
     (case sb_settimeout b of
        Some e \<Rightarrow> Inl (Error e)
      | None \<Rightarrow>
          (case sb_connect_ex b of
             Inl e \<Rightarrow> Inl (Error e)
           | Inr result \<Rightarrow> Inr (port, result = 0)))"

text \<open>
  The \<open>with\<close> statement: no block and no \<open>close\<close> when the socket cannot be created;
  otherwise the socket is closed on every way out of the block, and an exception of
  \<open>close\<close> replaces the block's result.
\<close>

definition probe_with :: "sock_behaviour \<Rightarrow> int \<Rightarrow> py_exn + (int \<times> bool)" where
  "probe_with b port =
     (case sb_create b of
        Some e \<Rightarrow> Inl (Error e)
      | None \<Rightarrow>
          (let r = probe_body b port in
           case sb_close b of
             Some e \<Rightarrow> Inl (Error e)
           | None \<Rightarrow> r))"

definition scan_port :: "'t network \<Rightarrow> string \<Rightarrow> int \<Rightarrow> 't \<Rightarrow> py_exn + (int \<times> bool)" where
  "scan_port net host_ip port timeout =
     (case probe_with (net host_ip port timeout) port of
        Inl e \<Rightarrow> (if is_Exception e then Inr (port, False) else Inl e)
      | Inr r \<Rightarrow> Inr r)"

text \<open>A probe in which every call succeeds and \<open>connect_ex\<close> returns 0.\<close>

definition connects :: "sock_behaviour \<Rightarrow> bool" where
  "connects b \<longleftrightarrow>
     sb_create b = None \<and> sb_settimeout b = None \<and> sb_connect_ex b = Inr 0 \<and> sb_close b = None"

subsection \<open>The environment of \<open>run_scan\<close>\<close>

text \<open>
  When \<open>KeyboardInterrupt\<close> reaches the main thread: not during the call, while the
  probes are being submitted (after so many calls of \<open>ex.submit\<close>), or inside the
  \<open>as_completed\<close> loop, while it waits for the next future (after so many outcomes
  have been recorded). An interrupt placed beyond the end of its phase does not arrive
  during the call.
\<close>

datatype sigint = Never | DuringSubmit nat | DuringCollect nat

datatype file_format = JSON | CSV

record row =
  r_host :: string
  r_ip :: string
  r_port :: int
  r_status :: string
  r_scanned_at :: string

text \<open>
  The lines \<open>run_scan\<close> prints, without their layout; the timeout in the first line
  and the elapsed time in the summary are left out.
\<close>

datatype message =
    NoPorts
  | Starting string nat int
  | PortOpen int
  | Interrupted
  | ScanComplete "int list"
  | Saved string file_format
  | SaveFailed lib_error

text \<open>
  Everything outside the function that decides a run: the network, the order in which
  the executor's futures complete (each number picks one of the futures still pending;
  first come first served once the list is used up), the interrupt, the clock read for
  \<open>scanned_at\<close>, \<open>os.path.splitext\<close>, and the outcome of writing the output file.
\<close>

record 't world =
  net :: "'t network"
  sched :: "nat list"
  sigint :: sigint
  now :: "nat \<Rightarrow> string"
  splitext :: "string \<Rightarrow> string \<times> string"
  fs_write :: "string \<Rightarrow> file_format \<Rightarrow> row list \<Rightarrow> lib_error option"

text \<open>
  \<open>as_completed(fs)\<close>: yields every future once, in the order of completion.
\<close>

definition pick :: "nat list \<Rightarrow> nat \<Rightarrow> nat" where
  "pick cs n = (case cs of [] \<Rightarrow> 0 | c # _ \<Rightarrow> c mod n)"

function as_completed :: "'a list \<Rightarrow> nat list \<Rightarrow> 'a list" where
  "as_completed [] cs = []"
| "as_completed (f # fs) cs =
     (let i = pick cs (Suc (length fs))
      in ((f # fs) ! i) # as_completed (take i (f # fs) @ drop (Suc i) (f # fs)) (tl cs))"
  by pat_completeness auto
termination
proof (relation "measure (\<lambda>(fs, cs). length fs)")
  show "wf (measure (\<lambda>(fs :: 'a list, cs :: nat list). length fs))"
    by simp
next
  fix f :: 'a and fs :: "'a list" and cs :: "nat list" and i :: nat
  assume i: "i = pick cs (Suc (length fs))"
  have "i < Suc (length fs)"
    unfolding i pick_def by (cases cs) simp_all
  then show "((take i (f # fs) @ drop (Suc i) (f # fs), tl cs), (f # fs, cs))
               \<in> measure (\<lambda>(fs, cs). length fs)"
    by (simp add: min_def)
qed

subsection \<open>\<open>run_scan\<close>\<close>

text \<open>The two accumulators of the loop and the console.\<close>

record scan_state =
  open_ports :: "int list"
  results :: "row list"
  console :: "message list"

text \<open>
  The body of the \<open>for\<close> loop for one completed future: \<open>p\<close> is the port the future
  was submitted for, \<open>res\<close> what \<open>future.result()\<close> gives. An \<open>Exception\<close> there
  makes the port closed; any other exception leaves the loop.
\<close>

definition record_outcome ::
  "string \<Rightarrow> string \<Rightarrow> int \<Rightarrow> (py_exn + (int \<times> bool)) \<Rightarrow> scan_state \<Rightarrow> py_exn + scan_state" where
  "record_outcome target_ip stamp p res st =
     (case (case res of
              Inr (port, is_open) \<Rightarrow> Inr (port, if is_open then ''open'' else ''closed'')
            | Inl e \<Rightarrow> (if is_Exception e then Inr (p, ''closed'') else Inl e)) of
        Inl e \<Rightarrow> Inl e
      | Inr (port, status) \<Rightarrow>
          (let st1 = (if status = ''open''
                      then st\<lparr>console := console st @ [PortOpen port],
                              open_ports := open_ports st @ [port]\<rparr>
                      else st)
           in Inr (st1\<lparr>results := results st1 @
                 [\<lparr>r_host = target_ip, r_ip = target_ip, r_port = port,
                   r_status = status, r_scanned_at = stamp\<rparr>]\<rparr>)))"

text \<open>
  The loop over the futures in completion order; \<open>k\<close> counts the outcomes recorded
  so far. The interrupt is raised while the loop waits for the next future.
\<close>

fun collect ::
  "string \<Rightarrow> (nat \<Rightarrow> string) \<Rightarrow> sigint \<Rightarrow> nat \<Rightarrow> (int \<times> (py_exn + (int \<times> bool))) list
     \<Rightarrow> scan_state \<Rightarrow> (py_exn + unit) \<times> scan_state" where
  "collect target_ip clock sig k [] st = (Inr (), st)"
| "collect target_ip clock sig k ((p, res) # fs) st =
     (if sig = DuringCollect k then (Inl KeyboardInterrupt, st)
      else (case record_outcome target_ip (clock k) p res st of
              Inl e \<Rightarrow> (Inl e, st)
            | Inr st' \<Rightarrow> collect target_ip clock sig (Suc k) fs st'))"

text \<open>\<open>max_workers = min(max(1, threads), total)\<close>\<close>

definition max_workers :: "int \<Rightarrow> int \<Rightarrow> int" where
  "max_workers threads total_ports = min (max 1 threads) total_ports"

text \<open>\<open>s.lower()\<close> on code points below 256, and \<open>ext.lstrip('.').lower()\<close>.\<close>

definition lower_char :: "char \<Rightarrow> char" where
  "lower_char c =
     (let n = (of_char c :: nat)
      in if (65 \<le> n \<and> n \<le> 90) \<or> (192 \<le> n \<and> n \<le> 222 \<and> n \<noteq> 215)
         then char_of (n + 32) else c)"

definition clean_ext :: "string \<Rightarrow> string" where
  "clean_ext ext = map lower_char (dropWhile (\<lambda>c. c = CHR ''.'') ext)"

text \<open>
  The block under \<open>if save_path:\<close>. Opening the file and writing it are one step
  of the file system; whatever it raises is caught, printed, and changes nothing else.
\<close>

definition save_results :: "'t world \<Rightarrow> string \<Rightarrow> scan_state \<Rightarrow> scan_state" where
  "save_results w save_path st =
     (let ext = clean_ext (snd (splitext w save_path));
          fmt = (if ext = ''json'' then JSON else CSV)
      in case fs_write w save_path fmt (results st) of
           None \<Rightarrow> st\<lparr>console := console st @ [Saved save_path fmt]\<rparr>
         | Some e \<Rightarrow> st\<lparr>console := console st @ [SaveFailed e]\<rparr>)"

text \<open>
  What a call of \<open>run_scan\<close> leaves behind: the value it returns or the exception it
  raises, its local state at that moment, the ports handed to \<open>ex.submit\<close>, and the
  \<open>max_workers\<close> of the executor if one was created.
\<close>

record scan_run =
  returned :: "py_exn + int list"
  final :: scan_state
  submitted :: "int list"
  pool_workers :: "int option"

definition run_scan ::
  "'t world \<Rightarrow> string \<Rightarrow> int list \<Rightarrow> int \<Rightarrow> 't \<Rightarrow> string option \<Rightarrow> scan_run" where
  "run_scan w target_ip ports threads timeout save_path =
     (if ports = [] then
        \<lparr>returned = Inr [],
         final = \<lparr>open_ports = [], results = [], console = [NoPorts]\<rparr>,
         submitted = [], pool_workers = None\<rparr>
      else
        (let total_ports = length ports;
             st0 = \<lparr>open_ports = [], results = [],
                    console = [Starting target_ip total_ports threads]\<rparr>;
             workers = max_workers threads (int total_ports);
             cut = (case sigint w of DuringSubmit n \<Rightarrow> if n < total_ports then Some n else None
                    | _ \<Rightarrow> None)
         in case cut of
              Some n \<Rightarrow>
                \<lparr>returned = Inl KeyboardInterrupt, final = st0,
                 submitted = take n ports, pool_workers = Some workers\<rparr>
            | None \<Rightarrow>
                (let future_map = map (\<lambda>p. (p, scan_port (net w) target_ip p timeout)) ports
                 in case collect target_ip (now w) (sigint w) 0
                           (as_completed future_map (sched w)) st0 of
                      (Inl e, st) \<Rightarrow>
                        (if e = KeyboardInterrupt then
                           \<lparr>returned = Inr (open_ports st),
                            final = st\<lparr>console := console st @ [Interrupted]\<rparr>,
                            submitted = ports, pool_workers = Some workers\<rparr>
                         else
                           \<lparr>returned = Inl e, final = st,
                            submitted = ports, pool_workers = Some workers\<rparr>)
                    | (Inr _, st) \<Rightarrow>
                        (let st1 = st\<lparr>console := console st @ [ScanComplete (open_ports st)]\<rparr>;
                             st2 = (case save_path of
                                      None \<Rightarrow> st1
                                    | Some path \<Rightarrow>
                                        if path = [] then st1 else save_results w path st1)
                         in \<lparr>returned = Inr (open_ports st2), final = st2,
                             submitted = ports, pool_workers = Some workers\<rparr>))))"

text \<open>The ports recorded as open in a sequence of outcomes, in the order of the sequence.\<close>

definition open_of :: "row list \<Rightarrow> int list" where
  "open_of rs = map r_port (filter (\<lambda>r. r_status r = ''open'') rs)"

subsection \<open>The executor\<close>

text \<open>
  \<open>ThreadPoolExecutor(max_workers=n)\<close> as the library documents it: submitted calls
  wait in a queue, a waiting call starts only while fewer than \<open>n\<close> calls are running,
  and a running call finishes at any time.
\<close>

record pool =
  bound :: nat
  queued :: "int list"
  running :: "int list"
  finished :: "int list"

inductive pool_step :: "pool \<Rightarrow> pool \<Rightarrow> bool" where
  start: "queued s = p # q \<Longrightarrow> length (running s) < bound s \<Longrightarrow>
            pool_step s (s\<lparr>queued := q, running := running s @ [p]\<rparr>)"
| finish: "i < length (running s) \<Longrightarrow>
            pool_step s (s\<lparr>running := take i (running s) @ drop (Suc i) (running s),
                           finished := finished s @ [running s ! i]\<rparr>)"

definition pool_init :: "int \<Rightarrow> int list \<Rightarrow> pool" where
  "pool_init n ports = \<lparr>bound = nat n, queued = ports, running = [], finished = []\<rparr>"

subsection \<open>Notions used to state the properties\<close>

text \<open>
  A token of a specification as the specification describes it: blank, a single
  integer, a range \<open>a-b\<close>, or neither. Integers are read the way \<open>int()\<close> reads them,
  and a token with a hyphen is a range split at its first hyphen.
\<close>

datatype token = Blank | Single int | Range int int | Malformed

definition read_token :: "nat \<Rightarrow> string \<Rightarrow> token" where
  "read_token lim t =
     (let part = strip t in
      if part = [] then Blank
      else if CHR ''-'' \<in> set part then
        (case (py_int lim (fst (split_first CHR ''-'' part)),
               py_int lim (snd (split_first CHR ''-'' part))) of
           (Some a, Some b) \<Rightarrow> Range a b
         | _ \<Rightarrow> Malformed)
      else (case py_int lim part of Some p \<Rightarrow> Single p | None \<Rightarrow> Malformed))"

definition valid_port :: "int \<Rightarrow> bool" where
  "valid_port p \<longleftrightarrow> 1 \<le> p \<and> p \<le> 65535"

text \<open>A malformed token, a value out of range, or an inverted range.\<close>

fun invalid_token :: "token \<Rightarrow> bool" where
  "invalid_token Blank = False"
| "invalid_token (Single p) = (\<not> valid_port p)"
| "invalid_token (Range a b) = (\<not> valid_port a \<or> \<not> valid_port b \<or> b < a)"
| "invalid_token Malformed = True"

text \<open>
  How many outcomes the loop records when it starts at count \<open>k\<close> with \<open>n\<close> futures
  to come: all of them, unless the interrupt arrives first.
\<close>

definition recorded :: "sigint \<Rightarrow> nat \<Rightarrow> nat \<Rightarrow> nat" where
  "recorded sig k n =
     (case sig of DuringCollect j \<Rightarrow> if k \<le> j \<and> j - k < n then j - k else n | _ \<Rightarrow> n)"

text \<open>
  A small network for concrete runs: ports 22 and 443 accept the connection, every
  other port refuses it (\<open>connect_ex\<close> returns \<open>ECONNREFUSED\<close>, 111).
\<close>

definition accepting :: sock_behaviour where
  "accepting = \<lparr>sb_create = None, sb_settimeout = None, sb_connect_ex = Inr 0, sb_close = None\<rparr>"

definition refusing :: sock_behaviour where
  "refusing = \<lparr>sb_create = None, sb_settimeout = None, sb_connect_ex = Inr 111, sb_close = None\<rparr>"

definition demo_net :: "nat network" where
  "demo_net host_ip port timeout = (if port \<in> set [22, 443] then accepting else refusing)"

text \<open>
  A world over that network in which the last of the submitted probes completes first,
  no interrupt arrives and the output file can be written.
\<close>

definition demo_world :: "nat world" where
  "demo_world =
     \<lparr>net = demo_net, sched = [2, 1], sigint = Never,
      now = (\<lambda>k. ''2025-10-03T12:00:00''),
      splitext = (\<lambda>path. (takeWhile (\<lambda>c. c \<noteq> CHR ''.'') path,
                           dropWhile (\<lambda>c. c \<noteq> CHR ''.'') path)),
      fs_write = (\<lambda>path fmt rows. None)\<rparr>"

section \<open>Properties of \<open>parse_ports_input\<close>\<close>

subsection \<open>The loop, one token at a time\<close>

lemma fold_insert_set: "fold insert xs S = set xs \<union> S"
  by (induction xs arbitrary: S) auto

lemma parse_parts_Cons:
  "parse_parts lim (t # ts) S =
     (case read_token lim t of
        Blank \<Rightarrow> parse_parts lim ts S
      | Single p \<Rightarrow> if valid_port p then parse_parts lim ts (insert p S) else None
      | Range a b \<Rightarrow>
          if valid_port a \<and> valid_port b \<and> a \<le> b
          then parse_parts lim ts (fold insert [a..b] S) else None
      | Malformed \<Rightarrow> None)"
  by (auto simp: read_token_def Let_def valid_port_def split: option.splits prod.splits)

lemma parse_parts_ports:
  "parse_parts lim ts S = Some S' \<Longrightarrow> finite S \<Longrightarrow> \<forall>p\<in>S. valid_port p
     \<Longrightarrow> finite S' \<and> (\<forall>p\<in>S'. valid_port p)"
proof (induction ts arbitrary: S)
  case Nil
  then show ?case by simp
next
  case (Cons t ts)
  note step = Cons.prems(1)[unfolded parse_parts_Cons]
  show ?case
  proof (cases "read_token lim t")
    case Blank
    with step Cons.IH[of S] Cons.prems(2,3) show ?thesis by simp
  next
    case (Single p)
    with step have "parse_parts lim ts (insert p S) = Some S'" and "valid_port p"
      by (simp_all split: if_splits)
    with Cons.IH[of "insert p S"] Cons.prems(2,3) show ?thesis by simp
  next
    case (Range a b)
    with step have run: "parse_parts lim ts (fold insert [a..b] S) = Some S'"
      and ok: "valid_port a" "valid_port b"
      by (simp_all split: if_splits)
    have "\<forall>p\<in>fold insert [a..b] S. valid_port p"
      using ok Cons.prems(3) by (auto simp: fold_insert_set valid_port_def)
    moreover have "finite (fold insert [a..b] S)"
      using Cons.prems(2) by (simp add: fold_insert_set)
    ultimately show ?thesis using Cons.IH[OF run] by blast
  next
    case Malformed
    with step show ?thesis by simp
  qed
qed

lemma parse_parts_None_iff:
  "parse_parts lim ts S = None \<longleftrightarrow> (\<exists>t\<in>set ts. invalid_token (read_token lim t))"
proof (induction ts arbitrary: S)
  case Nil
  then show ?case by simp
next
  case (Cons t ts)
  show ?case
    unfolding parse_parts_Cons using Cons.IH
    by (cases "read_token lim t") auto
qed

lemma parse_parts_skip_blank:
  "parse_parts lim (filter (\<lambda>t. strip t \<noteq> []) ts) S = parse_parts lim ts S"
proof (induction ts arbitrary: S)
  case Nil
  then show ?case by simp
next
  case (Cons t ts)
  show ?case
  proof (cases "strip t = []")
    case True
    then show ?thesis using Cons.IH by (simp add: Let_def)
  next
    case False
    then show ?thesis
      by (simp add: parse_parts_Cons Cons.IH del: parse_parts.simps split: token.splits)
  qed
qed

lemma parse_parts_all_blank:
  "\<forall>t\<in>set ts. strip t = [] \<Longrightarrow> parse_parts lim ts S = Some S"
  by (induction ts) (simp_all add: Let_def)

lemma strip_Nil: "strip [] = []"
  by (simp add: strip_def trim_def)

subsection \<open>\<open>split\<close> and \<open>join\<close>\<close>

text \<open>
  Every string is the join of its comma-free tokens, so a statement about
  \<open>join CHR '','' ts\<close> for comma-free \<open>ts\<close> is a statement about every specification.
\<close>

lemma split_on_not_Nil: "split_on sep s \<noteq> []"
  by (induction s) (simp_all add: Let_def)

lemma split_on_no_sep: "sep \<notin> set t \<Longrightarrow> split_on sep (t @ sep # s) = t # split_on sep s"
  by (induction t) (auto simp: Let_def)

lemma split_on_single: "sep \<notin> set t \<Longrightarrow> split_on sep t = [t]"
  by (induction t) (auto simp: Let_def)

lemma split_on_join:
  "ts \<noteq> [] \<Longrightarrow> \<forall>t\<in>set ts. sep \<notin> set t \<Longrightarrow> split_on sep (join sep ts) = ts"
  by (induction sep ts rule: join.induct) (simp_all add: split_on_single split_on_no_sep)

lemma join_split_on: "join sep (split_on sep s) = s"
proof (induction s)
  case Nil
  then show ?case by simp
next
  case (Cons c s)
  obtain t ts where r: "split_on sep s = t # ts"
    using split_on_not_Nil[of sep s] by (cases "split_on sep s") auto
  with Cons show ?case by (cases ts) (auto simp: Let_def)
qed

lemma split_on_sep_free: "\<forall>t\<in>set (split_on sep s). sep \<notin> set t"
proof (induction s)
  case Nil
  then show ?case by simp
next
  case (Cons c s)
  obtain t ts where r: "split_on sep s = t # ts"
    using split_on_not_Nil[of sep s] by (cases "split_on sep s") auto
  with Cons show ?case by (auto simp: Let_def)
qed

lemma join_nonblank: "t \<in> set ts \<Longrightarrow> t \<noteq> [] \<Longrightarrow> join sep ts \<noteq> []"
  by (induction sep ts rule: join.induct) auto

subsection \<open>Output of a valid specification\<close>

lemma parse_ports_input_Some:
  assumes "parse_ports_input lim spec = Some ps"
  shows "sorted_wrt (<) ps \<and> distinct ps \<and> (\<forall>p\<in>set ps. 1 \<le> p \<and> p \<le> 65535)"
proof -
  from assms obtain S where S: "parse_parts lim (split_on CHR '','' spec) {} = Some S"
    and ps: "ps = sorted_list_of_set S"
    by (auto simp: parse_ports_input_def split: if_splits)
  from parse_parts_ports[OF S] have fin: "finite S" and rng: "\<forall>p\<in>S. valid_port p"
    by simp_all
  have "sorted_wrt (<) ps" unfolding ps by simp
  moreover have "distinct ps" unfolding ps by simp
  moreover have "\<forall>p\<in>set ps. 1 \<le> p \<and> p \<le> 65535"
    unfolding ps using fin rng by (simp add: valid_port_def)
  ultimately show ?thesis by blast
qed

lemma example_spec:
  assumes "lim = 0 \<or> 640 \<le> lim"
  shows "parse_ports_input lim ''22,80,8000-8002'' = Some [22, 80, 8000, 8001, 8002]"
proof -
  have a: "py_int lim ''22'' = Some 22" "py_int lim ''80'' = Some 80"
    "py_int lim ''8000'' = Some 8000" "py_int lim ''8002'' = Some 8002"
    using assms
    by (auto simp: py_int_def trim_def int_isspace_def is_digit_def digits_value_def digit_val_def)
  have s: "strip ''22'' = ''22''" "strip ''80'' = ''80''" "strip ''8000-8002'' = ''8000-8002''"
    by (simp_all add: strip_def trim_def py_isspace_def)
  have sp: "split_on CHR '','' ''22,80,8000-8002'' = [''22'', ''80'', ''8000-8002'']"
    by (simp add: Let_def)
  have u: "[8000..8002] = [8000, 8001, 8002::int]"
    by (simp add: upto_rec_numeral)
  have "parse_parts lim [''22'', ''80'', ''8000-8002''] {} = Some {22, 80, 8000, 8001, 8002}"
    by (auto simp: Let_def s a split_first_def u)
  moreover have "sorted_list_of_set {22, 80, 8000, 8001, 8002::int} = [22, 80, 8000, 8001, 8002]"
    by (simp add: sorted_list_of_set.sorted_key_list_of_set_unique)
  ultimately show ?thesis
    by (simp add: parse_ports_input_def sp del: split_on.simps)
qed

text \<open>
  Claim C3. Whenever \<open>parse_ports_input\<close> accepts a specification, the list it returns
  is strictly ascending, has no duplicates, and holds only ports between 1 and 65535.
  In particular the specification \<open>22,80,8000-8002\<close> gives 22, 80, 8000, 8001, 8002
  (under every digit limit the interpreter can be set to: none, or at least 640).
\<close>

theorem parse_ports_input_ascending: 
  "(parse_ports_input lim spec = Some ps \<longrightarrow>
      sorted_wrt (<) ps \<and> distinct ps \<and> (\<forall>p\<in>set ps. 1 \<le> p \<and> p \<le> 65535)) \<and>
   (lim = 0 \<or> 640 \<le> lim \<longrightarrow>
      parse_ports_input lim ''22,80,8000-8002'' = Some [22, 80, 8000, 8001, 8002])"
  using parse_ports_input_Some example_spec by blast

text \<open>The statement of C3 at the specification \<open>443, 22,21-23\<close>.\<close>

theorem parse_ports_input_ascending_witness:
  "parse_ports_input 4300 ''443, 22,21-23'' = Some [21, 22, 23, 443] \<and>
   sorted_wrt (<) [21, 22, 23, 443 :: int] \<and> distinct [21, 22, 23, 443 :: int] \<and>
   list_all (\<lambda>p. 1 \<le> p \<and> p \<le> 65535) [21, 22, 23, 443 :: int] \<and>
   parse_ports_input 4300 ''22,80,8000-8002'' = Some [22, 80, 8000, 8001, 8002]"
proof -
  have h: "parse_ports_input 4300 ''443, 22,21-23'' = Some [21, 22, 23, 443]"
    by code_simp
  show ?thesis
    using h parse_ports_input_ascending[of 4300 "''443, 22,21-23''" "[21, 22, 23, 443]"] by simp
qed

subsection \<open>Rejection\<close>

text \<open>
  Claim C4. The empty specification is invalid, and a specification with a token that
  is malformed, has a value outside 1..65535, or is an inverted range is rejected as a
  whole, whatever its other tokens are.
\<close>

theorem parse_ports_input_rejects:
  "parse_ports_input lim [] = None \<and>
   ((\<exists>t\<in>set (split_on CHR '','' spec). invalid_token (read_token lim t)) \<longrightarrow>
      parse_ports_input lim spec = None)"
  by (simp add: parse_ports_input_def parse_parts_None_iff)

text \<open>The statement of C4 at the specification \<open>22,70000\<close>.\<close>

theorem parse_ports_input_rejects_witness:
  "parse_ports_input 4300 [] = None \<and>
   (\<exists>t\<in>set (split_on CHR '','' ''22,70000'').  invalid_token (read_token 4300 t)) \<and>
   parse_ports_input 4300 ''22,70000'' = None"
proof -
  have h: "invalid_token (read_token 4300 ''70000'')" by code_simp
  have s: "split_on CHR '','' ''22,70000'' = [''22'', ''70000'']" by code_simp
  have e: "\<exists>t\<in>set (split_on CHR '','' ''22,70000'').  invalid_token (read_token 4300 t)"
    unfolding s using h by simp
  show ?thesis using e parse_ports_input_rejects[of 4300 "''22,70000''"] by blast
qed

text \<open>Rejection happens in no other case.\<close>

lemma parse_ports_input_None_iff:
  "parse_ports_input lim spec = None \<longleftrightarrow>
     spec = [] \<or> (\<exists>t\<in>set (split_on CHR '','' spec). invalid_token (read_token lim t))"
  by (simp add: parse_ports_input_def parse_parts_None_iff)

subsection \<open>Empty tokens\<close>

text \<open>
  Claim C10. In a non-empty specification the tokens that are empty after trimming
  are skipped: if some token is not blank, the specification parses exactly as the one
  that joins its non-blank tokens only (so without leading, trailing or repeated
  commas); if every token is blank, as in \<open>,\<close>, the result is the empty list and
  not a failure.
\<close>

theorem parse_ports_input_skips_empty:
  assumes "\<forall>t\<in>set ts. CHR '','' \<notin> set t" and "join CHR '','' ts \<noteq> []"
  shows "if \<exists>t\<in>set ts. strip t \<noteq> []
         then parse_ports_input lim (join CHR '','' ts) =
              parse_ports_input lim (join CHR '','' (filter (\<lambda>t. strip t \<noteq> []) ts))
         else parse_ports_input lim (join CHR '','' ts) = Some []"
proof -
  from assms(2) have ne: "ts \<noteq> []" by auto
  have sp: "split_on CHR '','' (join CHR '','' ts) = ts"
    using split_on_join[OF ne assms(1)] .
  show ?thesis
  proof (cases "\<exists>t\<in>set ts. strip t \<noteq> []")
    case True
    let ?fs = "filter (\<lambda>t. strip t \<noteq> []) ts"
    from True obtain t where t0: "t \<in> set ts" "strip t \<noteq> []"
      by blast
    then have t: "t \<in> set ?fs" "t \<noteq> []"
      using strip_Nil by auto
    then have fne: "?fs \<noteq> []" and jne: "join CHR '','' ?fs \<noteq> []"
      using join_nonblank[of t ?fs] by auto
    have "split_on CHR '','' (join CHR '','' ?fs) = ?fs"
      using split_on_join[OF fne] assms(1) by simp
    then show ?thesis
      using True sp assms(2) jne by (simp add: parse_ports_input_def parse_parts_skip_blank)
  next
    case False
    then have "parse_parts lim ts {} = Some {}"
      by (simp add: parse_parts_all_blank)
    then show ?thesis
      using False sp assms(2) by (simp add: parse_ports_input_def)
  qed
qed

text \<open>The statement of C10 at the specifications \<open>,22,, ,80,\<close> and \<open>,\<close>.\<close>

theorem parse_ports_input_skips_empty_witness:
  "list_all (\<lambda>t. CHR '','' \<notin> set t) ['''', ''22'', '''', '' '', ''80'', ''''] \<and>
   join CHR '','' ['''', ''22'', '''', '' '', ''80'', ''''] = '',22,, ,80,'' \<and>
   parse_ports_input 4300 '',22,, ,80,'' = parse_ports_input 4300 ''22,80'' \<and>
   parse_ports_input 4300 '','' = Some []"
proof -
  have a: "\<forall>t\<in>set ['''', ''22'', '''', '' '', ''80'', '''']. CHR '','' \<notin> set t"
    by simp
  have b: "join CHR '','' ['''', ''22'', '''', '' '', ''80'', ''''] \<noteq> []"
    by simp
  have s: "strip '''' = []" "strip '' '' = []" "strip ''22'' \<noteq> []" "strip ''80'' \<noteq> []"
    by (simp_all add: strip_def trim_def py_isspace_def)
  have c: "\<forall>t\<in>set ['''', '''']. CHR '','' \<notin> set t"
    by simp
  have d: "join CHR '','' ['''', ''''] \<noteq> []"
    by simp
  show ?thesis
    using parse_ports_input_skips_empty[OF a b, of 4300]
      parse_ports_input_skips_empty[OF c d, of 4300] s by simp
qed

section \<open>Properties of \<open>scan_port\<close>\<close>

lemma scan_port_result:
  "scan_port nw host_ip port timeout = Inr (port, connects (nw host_ip port timeout))"
  by (auto simp: scan_port_def probe_with_def probe_body_def connects_def Let_def
           split: option.splits sum.splits)

text \<open>
  Claim C2. For every network, address, port and timeout the probe returns a pair and
  raises nothing. The pair holds the port it was given, with OPEN exactly when the
  connection was established (all socket calls succeeded and \<open>connect_ex\<close>
  returned 0), and CLOSED on every failure: a socket that cannot be created, a
  rejected timeout, an exception or an error code of \<open>connect_ex\<close>, a failing
  \<open>close\<close>.
\<close>

theorem scan_port_total: "scan_port nw host_ip port timeout = Inr (port, connects (nw host_ip port timeout))"
  by (rule scan_port_result)

text \<open>The statement of C2 at an accepting and at a refusing port.\<close>

theorem scan_port_total_witness:
  "scan_port demo_net ''10.0.0.1'' 22 1 = Inr (22, True) \<and>
   scan_port demo_net ''10.0.0.1'' 80 1 = Inr (80, False)"
  using scan_port_total[where nw = demo_net and host_ip = "''10.0.0.1''" and port = 22
                          and timeout = 1]
    scan_port_total[where nw = demo_net and host_ip = "''10.0.0.1''" and port = 80
                      and timeout = 1]
  by (simp add: demo_net_def connects_def accepting_def refusing_def)

section \<open>Properties of \<open>run_scan\<close>\<close>

subsection \<open>Completion order\<close>

lemma pick_bound: "0 < n \<Longrightarrow> pick cs n < n"
  by (cases cs) (simp_all add: pick_def)

lemma as_completed_step:
  "fs \<noteq> [] \<Longrightarrow> i = pick cs (length fs) \<Longrightarrow>
     as_completed fs cs = fs ! i # as_completed (take i fs @ drop (Suc i) fs) (tl cs)"
  by (cases fs) (simp_all add: Let_def)

lemma mset_as_completed: "mset (as_completed fs cs) = mset fs"
proof (induction fs cs rule: as_completed.induct)
  case (1 cs)
  then show ?case by simp
next
  case (2 f fs cs)
  define xs where "xs = f # fs"
  define i where "i = pick cs (length xs)"
  have ne: "xs \<noteq> []" and i: "i < length xs"
    unfolding i_def xs_def using pick_bound[of "length (f # fs)" cs] by simp_all
  have "mset (as_completed xs cs) = {#xs ! i#} + mset (take i xs @ drop (Suc i) xs)"
    using "2.IH"[of i] as_completed_step[OF ne i_def] by (simp add: i_def xs_def)
  also have "\<dots> = mset (take i xs @ xs ! i # drop (Suc i) xs)"
    by simp
  also have "\<dots> = mset xs"
    using id_take_nth_drop[OF i] by simp
  finally show ?case unfolding xs_def .
qed

lemma length_as_completed: "length (as_completed fs cs) = length fs"
  using mset_as_completed[of fs cs] by (metis size_mset)

lemma as_completed_map: "as_completed (map g fs) cs = map g (as_completed fs cs)"
proof (induction fs cs rule: as_completed.induct)
  case (1 cs)
  then show ?case by simp
next
  case (2 f fs cs)
  define xs where "xs = f # fs"
  define i where "i = pick cs (length xs)"
  have ne: "xs \<noteq> []" and i: "i < length xs"
    unfolding i_def xs_def using pick_bound[of "length (f # fs)" cs] by simp_all
  have ne': "map g xs \<noteq> []" and i': "i = pick cs (length (map g xs))"
    using ne by (simp_all add: i_def)
  have IH: "as_completed (map g (take i xs @ drop (Suc i) xs)) (tl cs) =
            map g (as_completed (take i xs @ drop (Suc i) xs) (tl cs))"
    using "2.IH"[of i] by (simp add: i_def xs_def)
  have "as_completed (map g xs) cs =
          map g xs ! i # as_completed (take i (map g xs) @ drop (Suc i) (map g xs)) (tl cs)"
    by (rule as_completed_step[OF ne' i'])
  also have "\<dots> = g (xs ! i) # as_completed (map g (take i xs @ drop (Suc i) xs)) (tl cs)"
    using i by (simp add: take_map drop_map)
  also have "\<dots> = map g (xs ! i # as_completed (take i xs @ drop (Suc i) xs) (tl cs))"
    using IH by simp
  also have "\<dots> = map g (as_completed xs cs)"
    using as_completed_step[OF ne i_def] by simp
  finally show ?case unfolding xs_def .
qed

text \<open>Every order of arrival is the outcome of some schedule.\<close>

lemma as_completed_onto:
  "mset ys = mset xs \<Longrightarrow> \<exists>cs. as_completed xs cs = ys"
proof (induction ys arbitrary: xs)
  case Nil
  then show ?case by simp
next
  case (Cons y ys)
  then have "y \<in> set xs"
    by (metis list.set_intros(1) mset_eq_setD)
  then obtain i where i: "i < length xs" "xs ! i = y"
    by (auto simp: in_set_conv_nth)
  then have ne: "xs \<noteq> []" by auto
  have "mset xs = mset (take i xs @ xs ! i # drop (Suc i) xs)"
    using id_take_nth_drop[OF i(1)] by simp
  then have "mset ys = mset (take i xs @ drop (Suc i) xs)"
    using Cons.prems i(2) by simp
  from Cons.IH[OF this] obtain cs where cs: "as_completed (take i xs @ drop (Suc i) xs) cs = ys"
    by blast
  have "i = pick (i # cs) (length xs)"
    using i(1) by (simp add: pick_def)
  from as_completed_step[OF ne this] cs i(2) have "as_completed xs (i # cs) = y # ys"
    by simp
  then show ?case by blast
qed

subsection \<open>The collecting loop\<close>

lemma record_outcome_scan_port:
  "\<exists>st'. record_outcome ip stamp p (scan_port nw ip p t) st = Inr st' \<and>
         map r_port (results st') = map r_port (results st) @ [p] \<and>
         open_ports st' = open_ports st @ (if connects (nw ip p t) then [p] else []) \<and>
         open_of (results st') = open_of (results st) @ (if connects (nw ip p t) then [p] else [])"
  by (simp add: record_outcome_def scan_port_result open_of_def)

lemma recorded_step:
  "sig \<noteq> DuringCollect k \<Longrightarrow> recorded sig k (Suc n) = Suc (recorded sig (Suc k) n)"
  by (cases sig) (auto simp: recorded_def)

lemma recorded_now: "recorded (DuringCollect k) k (Suc n) = 0"
  by (simp add: recorded_def)

lemma recorded_Never: "recorded Never k n = n"
  by (simp add: recorded_def)

lemma recorded_DuringCollect_0: "recorded (DuringCollect j) 0 n = min j n"
  by (simp add: recorded_def)

lemma collect_probes:
  "\<exists>st'. collect ip clock sig k (map (\<lambda>p. (p, scan_port nw ip p t)) ps) st =
           (if recorded sig k (length ps) < length ps then Inl KeyboardInterrupt else Inr (), st') \<and>
         map r_port (results st') = map r_port (results st) @ take (recorded sig k (length ps)) ps \<and>
         open_ports st' = open_ports st @
           filter (\<lambda>p. connects (nw ip p t)) (take (recorded sig k (length ps)) ps) \<and>
         open_of (results st') = open_of (results st) @
           filter (\<lambda>p. connects (nw ip p t)) (take (recorded sig k (length ps)) ps)"
proof (induction ps arbitrary: k st)
  case Nil
  then show ?case by (simp add: recorded_def split: sigint.splits)
next
  case (Cons p ps)
  show ?case
  proof (cases "sig = DuringCollect k")
    case True
    then show ?thesis by (simp add: recorded_now)
  next
    case False
    obtain st1 where st1: "record_outcome ip (clock k) p (scan_port nw ip p t) st = Inr st1"
      "map r_port (results st1) = map r_port (results st) @ [p]"
      "open_ports st1 = open_ports st @ (if connects (nw ip p t) then [p] else [])"
      "open_of (results st1) = open_of (results st) @ (if connects (nw ip p t) then [p] else [])"
      using record_outcome_scan_port[of ip "clock k" p nw t st] by blast
    from Cons.IH[of "Suc k" st1] obtain st' where st':
      "collect ip clock sig (Suc k) (map (\<lambda>p. (p, scan_port nw ip p t)) ps) st1 =
           (if recorded sig (Suc k) (length ps) < length ps then Inl KeyboardInterrupt else Inr (), st')"
      "map r_port (results st') = map r_port (results st1) @ take (recorded sig (Suc k) (length ps)) ps"
      "open_ports st' = open_ports st1 @
           filter (\<lambda>p. connects (nw ip p t)) (take (recorded sig (Suc k) (length ps)) ps)"
      "open_of (results st') = open_of (results st1) @
           filter (\<lambda>p. connects (nw ip p t)) (take (recorded sig (Suc k) (length ps)) ps)"
      by blast
    have r: "recorded sig k (length (p # ps)) = Suc (recorded sig (Suc k) (length ps))"
      using recorded_step[OF False] by simp
    show ?thesis
      unfolding r using False st1 st' by simp
  qed
qed

subsection \<open>What a call returns\<close>

text \<open>
  Unless the interrupt arrives while the probes are submitted, the call returns the
  open ports among the outcomes it recorded, in their order of arrival.
\<close>

lemma save_results_state:
  "open_ports (save_results w path st) = open_ports st"
  "results (save_results w path st) = results st"
  by (simp_all add: save_results_def Let_def split: option.splits)

lemma run_scan_collected:
  fixes w :: "'t world" and ip :: string and ports :: "int list" and threads :: int
    and t :: 't and sp :: "string option"
  assumes "\<forall>n. sigint w = DuringSubmit n \<longrightarrow> length ports \<le> n"
  defines "run \<equiv> run_scan w ip ports threads t sp"
  defines "got \<equiv> take (recorded (sigint w) 0 (length ports)) (as_completed ports (sched w))"
  shows "returned run = Inr (filter (\<lambda>p. connects (net w ip p t)) got)"
    and "map r_port (results (final run)) = got"
    and "open_of (results (final run)) = filter (\<lambda>p. connects (net w ip p t)) got"
    and "submitted run = ports"
proof -
  let ?F = "\<lambda>p. (p, scan_port (net w) ip p t)"
  let ?st0 = "\<lparr>open_ports = [], results = [], console = [Starting ip (length ports) threads]\<rparr>"
  let ?arr = "as_completed ports (sched w)"
  have cut: "(case sigint w of DuringSubmit n \<Rightarrow> if n < length ports then Some n else None
                    | _ \<Rightarrow> None) = None"
    using assms(1) by (auto split: sigint.splits)
  have len: "length ?arr = length ports"
    by (rule length_as_completed)
  obtain st' where st':
    "collect ip (now w) (sigint w) 0 (map ?F ?arr) ?st0 =
       (if recorded (sigint w) 0 (length ports) < length ports then Inl KeyboardInterrupt else Inr (), st')"
    "map r_port (results st') = got"
    "open_ports st' = filter (\<lambda>p. connects (net w ip p t)) got"
    "open_of (results st') = filter (\<lambda>p. connects (net w ip p t)) got"
    using collect_probes[of ip "now w" "sigint w" 0 "net w" t ?arr ?st0]
    by (auto simp: len got_def open_of_def)
  have run: "run =
     (if ports = [] then
        \<lparr>returned = Inr [],
         final = \<lparr>open_ports = [], results = [], console = [NoPorts]\<rparr>,
         submitted = [], pool_workers = None\<rparr>
      else if recorded (sigint w) 0 (length ports) < length ports then
        \<lparr>returned = Inr (open_ports st'),
         final = st'\<lparr>console := console st' @ [Interrupted]\<rparr>,
         submitted = ports, pool_workers = Some (max_workers threads (int (length ports)))\<rparr>
      else
        (let st1 = st'\<lparr>console := console st' @ [ScanComplete (open_ports st')]\<rparr>;
             st2 = (case sp of None \<Rightarrow> st1
                    | Some path \<Rightarrow> if path = [] then st1 else save_results w path st1)
         in \<lparr>returned = Inr (open_ports st2), final = st2,
             submitted = ports, pool_workers = Some (max_workers threads (int (length ports)))\<rparr>))"
    unfolding run_def run_scan_def Let_def cut
    by (simp add: as_completed_map st' del: collect.simps)
  have empty: "ports = [] \<Longrightarrow> got = []"
    by (simp add: got_def)
  show "returned run = Inr (filter (\<lambda>p. connects (net w ip p t)) got)"
    unfolding run using st' empty
    by (auto simp: Let_def save_results_state split: option.splits)
  show "map r_port (results (final run)) = got"
    unfolding run using st' empty
    by (auto simp: Let_def save_results_state split: option.splits)
  show "open_of (results (final run)) = filter (\<lambda>p. connects (net w ip p t)) got"
    unfolding run using st' empty
    by (auto simp: Let_def save_results_state open_of_def split: option.splits)
  show "submitted run = ports"
    unfolding run by (auto simp: Let_def)
qed

lemma sort_cong_mset: "mset xs = mset ys \<Longrightarrow> sort xs = sort (ys :: int list)"
  by (rule properties_for_sort) simp_all

subsection \<open>No ports\<close>

text \<open>
  Claim C6. With an empty port list \<open>run_scan\<close> returns the empty list at once: there
  is no outcome and no open port, no executor has been created and no probe submitted,
  and nothing of the environment takes part in the result.
\<close>

theorem run_scan_no_ports:
  "run_scan w target_ip [] threads timeout save_path =
     \<lparr>returned = Inr [],
      final = \<lparr>open_ports = [], results = [], console = [NoPorts]\<rparr>,
      submitted = [], pool_workers = None\<rparr>"
  by (simp add: run_scan_def)

text \<open>The statement of C6 in the example world.\<close>

theorem run_scan_no_ports_witness:
  "run_scan demo_world ''10.0.0.1'' [] 100 1 (Some ''out.csv'') =
     \<lparr>returned = Inr [],
      final = \<lparr>open_ports = [], results = [], console = [NoPorts]\<rparr>,
      submitted = [], pool_workers = None\<rparr>"
  using run_scan_no_ports[where w = demo_world and target_ip = "''10.0.0.1''"
                            and threads = 100 and timeout = 1
                            and save_path = "Some ''out.csv''"]
  by simp

subsection \<open>The worker bound\<close>

lemma pool_step_bound:
  "pool_step s s' \<Longrightarrow> length (running s) \<le> bound s
     \<Longrightarrow> length (running s') \<le> bound s' \<and> bound s' = bound s"
  by (induction rule: pool_step.induct) auto

lemma pool_reach_bound:
  "pool_step\<^sup>*\<^sup>* s s' \<Longrightarrow> length (running s) \<le> bound s
     \<Longrightarrow> length (running s') \<le> bound s' \<and> bound s' = bound s"
  by (induction rule: rtranclp_induct) (auto dest: pool_step_bound)

lemma pool_workers_run_scan:
  "ports \<noteq> [] \<Longrightarrow>
     pool_workers (run_scan w ip ports threads t sp) = Some (max_workers threads (int (length ports)))"
  by (simp add: run_scan_def Let_def split: option.splits prod.splits sum.splits)

text \<open>
  Claim C5. With \<open>threads \<ge> 1\<close> and a non-empty port list, the executor of
  \<open>run_scan\<close> is created with \<open>max_workers = min(threads, len(ports))\<close>, and in every
  state such an executor can reach, the number of probes running at the same time is
  at most that bound.
\<close>

theorem run_scan_worker_bound:
  assumes "1 \<le> threads" and "ports \<noteq> []"
  shows "pool_workers (run_scan w ip ports threads t sp) = Some (min threads (int (length ports))) \<and>
         (\<forall>s. pool_step\<^sup>*\<^sup>* (pool_init (min threads (int (length ports))) ports) s \<longrightarrow>
              int (length (running s)) \<le> min threads (int (length ports)))"
proof -
  have mw: "max_workers threads (int (length ports)) = min threads (int (length ports))"
    using assms(1) by (simp add: max_workers_def)
  have "int (length (running s)) \<le> min threads (int (length ports))"
    if "pool_step\<^sup>*\<^sup>* (pool_init (min threads (int (length ports))) ports) s" for s
  proof -
    have "length (running s) \<le> bound s \<and>
          bound s = bound (pool_init (min threads (int (length ports))) ports)"
      using pool_reach_bound[OF that] by (simp add: pool_init_def)
    then have "length (running s) \<le> nat (min threads (int (length ports)))"
      by (simp add: pool_init_def)
    then show ?thesis using assms by linarith
  qed
  moreover have "pool_workers (run_scan w ip ports threads t sp) =
                   Some (min threads (int (length ports)))"
    using pool_workers_run_scan[OF assms(2), of w ip threads t sp] mw by simp
  ultimately show ?thesis by blast
qed

text \<open>The statement of C5 for 100 threads and three ports.\<close>

theorem run_scan_worker_bound_witness:
  "(1::int) \<le> 100 \<and> [22, 80, 443 :: int] \<noteq> [] \<and>
   pool_workers (run_scan demo_world ''10.0.0.1'' [22, 80, 443] 100 1 None) = Some 3 \<and>
   pool_step\<^sup>*\<^sup>* (pool_init 3 [22, 80, 443])
     \<lparr>bound = 3, queued = [80, 443], running = [22], finished = []\<rparr> \<and>
   int (length (running \<lparr>bound = 3, queued = [80, 443], running = [22], finished = []\<rparr>)) \<le> 3"
proof -
  have "pool_step (pool_init 3 [22, 80, 443])
          ((pool_init 3 [22, 80, 443])\<lparr>queued := [80, 443],
             running := running (pool_init 3 [22, 80, 443]) @ [22]\<rparr>)"
    by (rule pool_step.start) (simp_all add: pool_init_def)
  then have reach: "pool_step\<^sup>*\<^sup>* (pool_init 3 [22, 80, 443])
                      \<lparr>bound = 3, queued = [80, 443], running = [22], finished = []\<rparr>"
    by (simp add: pool_init_def)
  show ?thesis
    using reach run_scan_worker_bound[where threads = 100 and ports = "[22, 80, 443]"
                  and w = demo_world and ip = "''10.0.0.1''" and t = 1 and sp = None]
    by simp
qed

subsection \<open>One outcome for each port\<close>

text \<open>
  Claim C7. In a scan that runs to its natural end, the ports of the recorded outcomes
  are the submitted ports, each as often as it was submitted, whatever the order of
  completion; for a port list without duplicates no port has two outcomes.
\<close>

theorem run_scan_one_outcome_per_port:
  assumes "sigint w = Never"
  shows "mset (map r_port (results (final (run_scan w ip ports threads t sp)))) = mset ports \<and>
         (distinct ports \<longrightarrow>
            distinct (map r_port (results (final (run_scan w ip ports threads t sp)))))"
proof -
  have nocut: "\<forall>n. sigint w = DuringSubmit n \<longrightarrow> length ports \<le> n"
    using assms by simp
  have all: "take (recorded (sigint w) 0 (length ports)) (as_completed ports (sched w)) =
               as_completed ports (sched w)"
    using assms by (simp add: recorded_Never length_as_completed)
  note facts = run_scan_collected[OF nocut, of ip threads t sp, unfolded all]
  have m: "mset (map r_port (results (final (run_scan w ip ports threads t sp)))) = mset ports"
    using facts(2) by (simp add: mset_as_completed)
  then show ?thesis
    using mset_eq_imp_distinct_iff by blast
qed

text \<open>The statement of C7 in the example world, for the ports 22, 80 and 443.\<close>

theorem run_scan_one_outcome_per_port_witness:
  "sigint demo_world = Never \<and> distinct [22, 80, 443 :: int] \<and>
   mset (map r_port (results (final (run_scan demo_world ''10.0.0.1'' [22, 80, 443] 100 1 None))))
     = mset [22, 80, 443] \<and>
   distinct (map r_port (results (final (run_scan demo_world ''10.0.0.1'' [22, 80, 443] 100 1 None))))"
proof -
  have n: "sigint demo_world = Never"
    by (simp add: demo_world_def)
  show ?thesis
    using n run_scan_one_outcome_per_port[OF n, of "''10.0.0.1''" "[22, 80, 443]" 100 1 None] by simp
qed

subsection \<open>The returned list of open ports\<close>

text \<open>
  Claim C1, as the code has it. In a scan that runs to its natural end, the list
  \<open>run_scan\<close> returns holds the ports whose outcome is open within the outcome
  sequence, in the order in which their outcomes arrived. It is a projection of the
  outcomes, and sorting it gives the same list for every order of arrival: the sorted
  list of the submitted ports that accept a connection.
\<close>

theorem run_scan_open_ports_arrival_order:
  assumes "sigint w = Never"
  shows "returned (run_scan w ip ports threads t sp) =
           Inr (open_of (results (final (run_scan w ip ports threads t sp)))) \<and>
         sort (open_of (results (final (run_scan w ip ports threads t sp)))) =
           sort (filter (\<lambda>p. connects (net w ip p t)) ports)"
proof -
  have nocut: "\<forall>n. sigint w = DuringSubmit n \<longrightarrow> length ports \<le> n"
    using assms by simp
  have all: "take (recorded (sigint w) 0 (length ports)) (as_completed ports (sched w)) =
               as_completed ports (sched w)"
    using assms by (simp add: recorded_Never length_as_completed)
  note facts = run_scan_collected[OF nocut, of ip threads t sp, unfolded all]
  have "mset (filter (\<lambda>p. connects (net w ip p t)) (as_completed ports (sched w))) =
        mset (filter (\<lambda>p. connects (net w ip p t)) ports)"
    by (simp add: mset_as_completed)
  then show ?thesis
    using facts(1,3) sort_cong_mset by simp
qed

text \<open>The statement above in the example world.\<close>

theorem run_scan_open_ports_arrival_order_witness:
  "sigint demo_world = Never \<and>
   returned (run_scan demo_world ''10.0.0.1'' [22, 80, 443] 100 1 None) = Inr [443, 22] \<and>
   open_of (results (final (run_scan demo_world ''10.0.0.1'' [22, 80, 443] 100 1 None))) = [443, 22] \<and>
   sort [443, 22 :: int] = sort (filter (\<lambda>p. connects (net demo_world ''10.0.0.1'' p 1)) [22, 80, 443])"
proof -
  have n: "sigint demo_world = Never"
    by (simp add: demo_world_def)
  have r: "open_of (results (final (run_scan demo_world ''10.0.0.1'' [22, 80, 443] 100 1 None))) = [443, 22]"
    by code_simp
  show ?thesis
    using n r run_scan_open_ports_arrival_order[OF n, of "''10.0.0.1''" "[22, 80, 443]" 100 1 None] by simp
qed

text \<open>
  The returned list itself is not sorted. In the example world the probe of port 443
  completes before the probe of port 22, and \<open>run_scan\<close> returns 443 before 22, while
  the sorted set of the open ports among the outcomes is 22, 443.
\<close>

theorem run_scan_open_ports_unsorted:
  "returned (run_scan demo_world ''10.0.0.1'' [22, 80, 443] 100 1 None) = Inr [443, 22] \<and>
   sorted_list_of_set
     (set (open_of (results (final (run_scan demo_world ''10.0.0.1'' [22, 80, 443] 100 1 None)))))
     = [22, 443] \<and>
   returned (run_scan demo_world ''10.0.0.1'' [22, 80, 443] 100 1 None) \<noteq>
     Inr (sorted_list_of_set
       (set (open_of (results (final (run_scan demo_world ''10.0.0.1'' [22, 80, 443] 100 1 None))))))"
proof -
  have r: "returned (run_scan demo_world ''10.0.0.1'' [22, 80, 443] 100 1 None) = Inr [443, 22]"
    by code_simp
  have s: "sorted_list_of_set
     (set (open_of (results (final (run_scan demo_world ''10.0.0.1'' [22, 80, 443] 100 1 None)))))
     = [22, 443]"
    by code_simp
  show ?thesis
    unfolding r s by simp
qed

subsection \<open>Interrupts\<close>

text \<open>
  Claim C8, as the code has it. When the interrupt arrives inside the
  \<open>as_completed\<close> loop, after \<open>k\<close> outcomes have been recorded, \<open>run_scan\<close> raises
  nothing: it returns the open ports among the outcomes recorded so far, which are
  the first \<open>k\<close> to arrive. Every probe had been submitted before the loop began, and
  none is submitted afterwards.
\<close>

theorem run_scan_interrupt_collecting:
  "returned (run_scan (w\<lparr>sigint := DuringCollect k\<rparr>) ip ports threads t sp) =
     Inr (open_of (results (final (run_scan (w\<lparr>sigint := DuringCollect k\<rparr>) ip ports threads t sp)))) \<and>
   map r_port (results (final (run_scan (w\<lparr>sigint := DuringCollect k\<rparr>) ip ports threads t sp))) =
     take k (as_completed ports (sched w)) \<and>
   submitted (run_scan (w\<lparr>sigint := DuringCollect k\<rparr>) ip ports threads t sp) = ports"
proof -
  let ?w = "w\<lparr>sigint := DuringCollect k\<rparr>"
  have nocut: "\<forall>n. sigint ?w = DuringSubmit n \<longrightarrow> length ports \<le> n"
    by simp
  have got: "take (recorded (sigint ?w) 0 (length ports)) (as_completed ports (sched ?w)) =
               take k (as_completed ports (sched w))"
    by (simp add: recorded_DuringCollect_0 length_as_completed min_def)
  note facts = run_scan_collected[OF nocut, of ip threads t sp, unfolded got]
  show ?thesis
    using facts(1,2,3,4) by simp
qed

text \<open>The statement above in the example world, interrupted after one outcome.\<close>

theorem run_scan_interrupt_collecting_witness:
  "returned (run_scan (demo_world\<lparr>sigint := DuringCollect 1\<rparr>)
               ''10.0.0.1'' [22, 80, 443] 100 1 None) = Inr [443] \<and>
   map r_port (results (final (run_scan (demo_world\<lparr>sigint := DuringCollect 1\<rparr>)
               ''10.0.0.1'' [22, 80, 443] 100 1 None))) = [443] \<and>
   submitted (run_scan (demo_world\<lparr>sigint := DuringCollect 1\<rparr>)
               ''10.0.0.1'' [22, 80, 443] 100 1 None) = [22, 80, 443]"
proof -
  have a: "take 1 (as_completed [22, 80, 443 :: int] (sched demo_world)) = [443]"
    by code_simp
  have o: "open_of (results (final (run_scan (demo_world\<lparr>sigint := DuringCollect 1\<rparr>)
               ''10.0.0.1'' [22, 80, 443] 100 1 None))) = [443]"
    by code_simp
  show ?thesis
    using a o run_scan_interrupt_collecting[where w = demo_world and k = 1
                and ip = "''10.0.0.1''" and ports = "[22, 80, 443]" and threads = 100
                and t = 1 and sp = None]
    by simp
qed

text \<open>
  An interrupt that arrives while the probes are being submitted is outside the
  \<open>try\<close> block: \<open>run_scan\<close> raises \<open>KeyboardInterrupt\<close> and returns no list.
\<close>

theorem run_scan_interrupt_submitting:
  "returned (run_scan (demo_world\<lparr>sigint := DuringSubmit 1\<rparr>) ''10.0.0.1'' [22, 80, 443] 100 1 None)
     = Inl KeyboardInterrupt"
  by code_simp

lemma run_scan_fs_write:
  "returned (run_scan (w\<lparr>fs_write := f\<rparr>) ip ports threads t sp) =
     returned (run_scan (w\<lparr>fs_write := g\<rparr>) ip ports threads t sp) \<and>
   results (final (run_scan (w\<lparr>fs_write := f\<rparr>) ip ports threads t sp)) =
     results (final (run_scan (w\<lparr>fs_write := g\<rparr>) ip ports threads t sp)) \<and>
   open_ports (final (run_scan (w\<lparr>fs_write := f\<rparr>) ip ports threads t sp)) =
     open_ports (final (run_scan (w\<lparr>fs_write := g\<rparr>) ip ports threads t sp))"
  by (simp add: run_scan_def Let_def save_results_state split: option.splits prod.splits sum.splits sigint.splits)

lemma run_scan_saved:
  assumes "sigint w = Never" and "ports \<noteq> []" and "path \<noteq> []"
  shows "\<exists>st. final (run_scan w ip ports threads t (Some path)) = save_results w path st"
proof -
  let ?F = "\<lambda>p. (p, scan_port (net w) ip p t)"
  let ?st0 = "\<lparr>open_ports = [], results = [], console = [Starting ip (length ports) threads]\<rparr>"
  let ?arr = "as_completed ports (sched w)"
  obtain st' where st': "collect ip (now w) (sigint w) 0 (map ?F ?arr) ?st0 = (Inr (), st')"
    using collect_probes[of ip "now w" "sigint w" 0 "net w" t ?arr ?st0] assms(1)
    by (auto simp: recorded_Never)
  show ?thesis
    unfolding run_scan_def Let_def
    using assms st' by (auto simp: as_completed_map simp del: collect.simps)
qed

lemma save_results_failed:
  "fs_write w path (if clean_ext (snd (splitext w path)) = ''json'' then JSON else CSV)
     (results st) = Some e \<Longrightarrow> last (console (save_results w path st)) = SaveFailed e"
  by (simp add: save_results_def Let_def)

subsection \<open>A failing output file\<close>

text \<open>
  Claim C9. Whatever writing the output file does, \<open>run_scan\<close> returns the same list
  and holds the same outcomes as in a run in which the file is written without fault;
  and when a completed scan fails to write the file, the last line it prints reports
  that failure.
\<close>

theorem run_scan_save_failure:
  "returned (run_scan (w\<lparr>fs_write := f\<rparr>) ip ports threads t sp) =
     returned (run_scan (w\<lparr>fs_write := (\<lambda>path fmt rows. None)\<rparr>) ip ports threads t sp) \<and>
   results (final (run_scan (w\<lparr>fs_write := f\<rparr>) ip ports threads t sp)) =
     results (final (run_scan (w\<lparr>fs_write := (\<lambda>path fmt rows. None)\<rparr>) ip ports threads t sp)) \<and>
   (sigint w = Never \<and> ports \<noteq> [] \<and> sp = Some path \<and> path \<noteq> [] \<and>
    f path (if clean_ext (snd (splitext w path)) = ''json'' then JSON else CSV)
      (results (final (run_scan (w\<lparr>fs_write := f\<rparr>) ip ports threads t sp))) = Some e
    \<longrightarrow> last (console (final (run_scan (w\<lparr>fs_write := f\<rparr>) ip ports threads t sp))) = SaveFailed e)"
proof -
  let ?w = "w\<lparr>fs_write := f\<rparr>"
  let ?run = "run_scan ?w ip ports threads t (Some path)"
  have "last (console (final ?run)) = SaveFailed e"
    if n: "sigint w = Never" and ne: "ports \<noteq> []" and p: "path \<noteq> []"
      and fail: "f path (if clean_ext (snd (splitext w path)) = ''json'' then JSON else CSV)
                   (results (final ?run)) = Some e"
  proof -
    have n': "sigint ?w = Never" using n by simp
    obtain st where st: "final ?run = save_results ?w path st"
      using run_scan_saved[OF n' ne p] by blast
    have "fs_write ?w path (if clean_ext (snd (splitext ?w path)) = ''json'' then JSON else CSV)
            (results st) = Some e"
      using fail by (simp add: st save_results_state)
    from save_results_failed[OF this] show ?thesis
      by (simp add: st)
  qed
  then show ?thesis
    using run_scan_fs_write[where w = w and f = f and ip = ip and ports = ports
                               and threads = threads and t = t and sp = sp
                               and g = "\<lambda>path fmt rows. None"] by blast
qed

text \<open>The statement of C9 in the example world with a file system that refuses the file.\<close>

theorem run_scan_save_failure_witness:
  "sigint demo_world = Never \<and> [22, 80, 443 :: int] \<noteq> [] \<and> ''out.json'' \<noteq> [] \<and>
   returned (run_scan (demo_world\<lparr>fs_write := (\<lambda>path fmt rows. Some OSError)\<rparr>)
               ''10.0.0.1'' [22, 80, 443] 100 1 (Some ''out.json'')) = Inr [443, 22] \<and>
   returned (run_scan (demo_world\<lparr>fs_write := (\<lambda>path fmt rows. None)\<rparr>)
               ''10.0.0.1'' [22, 80, 443] 100 1 (Some ''out.json'')) = Inr [443, 22] \<and>
   last (console (final (run_scan (demo_world\<lparr>fs_write := (\<lambda>path fmt rows. Some OSError)\<rparr>)
               ''10.0.0.1'' [22, 80, 443] 100 1 (Some ''out.json'')))) = SaveFailed OSError"
proof -
  have n: "sigint demo_world = Never"
    by (simp add: demo_world_def)
  have r: "returned (run_scan (demo_world\<lparr>fs_write := (\<lambda>path fmt rows. Some OSError)\<rparr>)
               ''10.0.0.1'' [22, 80, 443] 100 1 (Some ''out.json'')) = Inr [443, 22]"
    by code_simp
  show ?thesis
    using n r run_scan_save_failure[where w = demo_world and f = "\<lambda>path fmt rows. Some OSError"
                   and ip = "''10.0.0.1''" and ports = "[22, 80, 443]" and threads = 100
                   and t = 1 and sp = "Some ''out.json''" and path = "''out.json''"
                   and e = OSError]
    by simp
qed

end
